theory Spec2Isabelle
  imports Main
begin

section \<open>The process entry point (cmd/cli.go)\<close>

text \<open>
  The Go source:
  \<^verbatim>\<open>
  func Execute() {
      if err := rootCmd.Execute(); err != nil {
          fmt.Println(err)
          os.Exit(1)
      }
  }
  \<close>
  The two output streams of the process are state that is passed explicitly. An error
  value is represented by the text its \<^verbatim>\<open>Error()\<close> method yields, \<^verbatim>\<open>nil\<close> by
  \<open>None\<close>. \<^verbatim>\<open>rootCmd.Execute\<close> is the cobra library's command runner: it is a
  parameter of the model, free to write to both streams before it returns.
\<close>

type_synonym go_error = string

record process =
  stdout :: string
  stderr :: string

text \<open>How a call ends: it returns to its caller, or \<^verbatim>\<open>os.Exit(code)\<close> ends the process.\<close>

datatype outcome = Returned | Exited int

type_synonym root_command = "process \<Rightarrow> process \<times> go_error option"

text \<open>\<^verbatim>\<open>fmt.Println\<close> writes its operand and a line feed to standard output.\<close>

definition Println :: "string \<Rightarrow> process \<Rightarrow> process" where
  "Println s p = p\<lparr>stdout := stdout p @ s @ [CHR 0x0A]\<rparr>"

definition Execute :: "root_command \<Rightarrow> process \<Rightarrow> process \<times> outcome" where
  "Execute rootCmd_Execute p =
     (case rootCmd_Execute p of
        (p1, None) \<Rightarrow> (p1, Returned)
      | (p1, Some err) \<Rightarrow> (Println err p1, Exited 1))"

section \<open>The conversation data model\<close>

text \<open>
  The orchestrator, the model client, the tool invoker and the tool registry are not
  among the source files at hand (only the entry point and the user documentation are).
  Their data and their transitions are therefore written down from the specification,
  sections 3 and 4; each such definition says so.
\<close>

text \<open>Modelled from the spec: the role tag of a ConversationTurn (user, assistant or tool);
  the type declaration is missing.\<close>

datatype role = User | Assistant | Tool

text \<open>Modelled from the spec: ConversationTurn, with its role, its text content, and the
  optional tool name and call identifier; the type declaration is missing.\<close>

record ConversationTurn =
  role :: role
  content :: string
  tool_name :: "string option"
  call_id :: "string option"

text \<open>Modelled from the spec: ToolDescriptor (name, description, input schema, target
  endpoint); the type declaration is missing.\<close>

record ToolDescriptor =
  name :: string
  description :: string
  input_schema :: "(string \<times> string) list"
  endpoint :: string

text \<open>Modelled from the spec: ToolCallRequest (tool name, arguments, correlation id); the
  type declaration is missing.\<close>

record ToolCallRequest =
  tool :: string
  arguments :: "(string \<times> string) list"
  correlation_id :: string

text \<open>Modelled from the spec: ToolResult (correlation id, success flag, payload text or
  error message); the type declaration is missing.\<close>

record ToolResult =
  result_id :: string
  success :: bool
  payload :: string

text \<open>Modelled from the spec: ModelResponse, the tagged union the Model Client returns;
  the type declaration is missing.\<close>

datatype ModelResponse = FinalAnswer string | ToolInvocation ToolCallRequest

section \<open>Bounded history\<close>

text \<open>Modelled from the spec: the trim of a Session's history, whose code is missing.
  "Oldest turns evicted first -- a simple FIFO trim": while the history is longer than
  the configured maximum, its oldest turn (the head of the sequence) is evicted.\<close>

fun trim :: "nat \<Rightarrow> 'a list \<Rightarrow> 'a list" where
  "trim max_len [] = []"
| "trim max_len (t # h) = (if max_len < length (t # h) then trim max_len h else t # h)"

text \<open>Modelled from the spec: the operation that appends a turn to the history, whose
  code is missing. The turn goes to the end of the ordered sequence, then the history
  is trimmed to the configured maximum.\<close>

definition append_turn :: "nat \<Rightarrow> 'a \<Rightarrow> 'a list \<Rightarrow> 'a list" where
  "append_turn max_len t h = trim max_len (h @ [t])"

section \<open>The chat loop\<close>

text \<open>Modelled from the spec: the states of the orchestrator's state machine (section 4.4),
  whose code is missing. ToolExecuting carries the request being executed.\<close>

datatype phase =
  AwaitingUserInput | ModelThinking | ToolExecuting ToolCallRequest | AnswerReady

text \<open>Modelled from the spec: the configured maximum history length and the hard iteration
  cap per user turn; the configuration structure is missing.\<close>

record config =
  max_history :: nat
  iteration_cap :: nat

text \<open>Modelled from the spec: the two remote services the loop calls, whose clients are
  missing. \<open>send\<close> is the Model Client: given the history and the tool descriptors it
  yields a ModelResponse, or the error it surfaces for the turn. Its first argument is
  the number of model calls the session has made before, so that the same history may get
  different answers. \<open>invoke\<close> is the Tool Invoker: it always yields a ToolResult.\<close>

record environment =
  send :: "nat \<Rightarrow> ConversationTurn list \<Rightarrow> ToolDescriptor list \<Rightarrow> go_error + ModelResponse"
  invoke :: "ToolCallRequest \<Rightarrow> ToolResult"

text \<open>Modelled from the spec: the Session and the orchestrator's bookkeeping, whose code is
  missing. \<open>rounds\<close> counts the tool-call rounds of the current user turn;
  \<open>model_calls\<close> counts the calls to the Model Client; \<open>tool_calls\<close> lists the requests
  handed to the Tool Invoker, in dispatch order; \<open>rendered\<close> lists what was shown to
  the user.\<close>

record session =
  history :: "ConversationTurn list"
  phase :: phase
  rounds :: nat
  registry :: "ToolDescriptor list"
  model_calls :: nat
  tool_calls :: "ToolCallRequest list"
  rendered :: "string list"

text \<open>Modelled from the spec: the turns the orchestrator writes, whose code is missing:
  a user turn, an assistant turn, the pending tool-call turn of a ToolInvocation, and
  the tool turn that holds a ToolResult.\<close>

definition user_turn :: "string \<Rightarrow> ConversationTurn" where
  "user_turn text = \<lparr>role = User, content = text, tool_name = None, call_id = None\<rparr>"

definition assistant_turn :: "string \<Rightarrow> ConversationTurn" where
  "assistant_turn text = \<lparr>role = Assistant, content = text, tool_name = None, call_id = None\<rparr>"

definition pending_turn :: "ToolCallRequest \<Rightarrow> ConversationTurn" where
  "pending_turn req =
     \<lparr>role = Assistant, content = [], tool_name = Some (tool req),
      call_id = Some (correlation_id req)\<rparr>"

definition tool_turn :: "ToolCallRequest \<Rightarrow> ToolResult \<Rightarrow> ConversationTurn" where
  "tool_turn req res =
     \<lparr>role = Tool, content = payload res, tool_name = Some (tool req),
      call_id = Some (result_id res)\<rparr>"

text \<open>Modelled from the spec: the truncation notice shown when the iteration cap ends a
  user turn; its wording is missing.\<close>

definition truncation_notice :: string where
  "truncation_notice = ''Tool-call limit reached; the answer was truncated.''"

text \<open>Modelled from the spec: the message for a tool name that the registry snapshot does
  not hold; its wording is missing.\<close>

definition unknown_tool_error :: "ToolCallRequest \<Rightarrow> string" where
  "unknown_tool_error req = ''unknown tool: '' @ tool req"

text \<open>Modelled from the spec: the transition AwaitingUserInput to ModelThinking, whose code
  is missing: "on receipt of user text; history appended with a user turn". A new user
  turn starts with no tool-call round done.\<close>

definition user_input :: "config \<Rightarrow> string \<Rightarrow> session \<Rightarrow> session" where
  "user_input cfg text s =
     s\<lparr>history := append_turn (max_history cfg) (user_turn text) (history s),
       rounds := 0,
       phase := ModelThinking\<rparr>"

text \<open>Modelled from the spec: one transition of the state machine of section 4.4, whose code
  is missing.
  \<^item> ModelThinking, cap reached: the hard iteration cap forces AnswerReady with the
    truncation notice; the Model Client is not called.
  \<^item> ModelThinking, FinalAnswer: the text is appended as an assistant turn and rendered.
  \<^item> ModelThinking, ToolInvocation of a tool of the registry snapshot: the pending
    tool-call turn is appended, next state ToolExecuting.
  \<^item> ModelThinking, ToolInvocation of an unknown tool, or an error of the Model Client:
    the error is shown and the loop awaits new user input.
  \<^item> ToolExecuting: the Tool Invoker is called, its result is appended as a tool turn,
    one more round is counted, next state ModelThinking.
  \<^item> AnswerReady: the loop awaits the next input.\<close>

definition step :: "config \<Rightarrow> environment \<Rightarrow> session \<Rightarrow> session" where
  "step cfg env s =
     (case phase s of
        AwaitingUserInput \<Rightarrow> s
      | ModelThinking \<Rightarrow>
          if iteration_cap cfg \<le> rounds s then
            s\<lparr>history := append_turn (max_history cfg) (assistant_turn truncation_notice) (history s),
              rendered := rendered s @ [truncation_notice],
              phase := AnswerReady\<rparr>
          else
            (case send env (model_calls s) (history s) (registry s) of
               Inl err \<Rightarrow>
                 s\<lparr>model_calls := Suc (model_calls s),
                   rendered := rendered s @ [err],
                   phase := AwaitingUserInput\<rparr>
             | Inr (FinalAnswer text) \<Rightarrow>
                 s\<lparr>model_calls := Suc (model_calls s),
                   history := append_turn (max_history cfg) (assistant_turn text) (history s),
                   rendered := rendered s @ [text],
                   phase := AnswerReady\<rparr>
             | Inr (ToolInvocation req) \<Rightarrow>
                 if tool req \<in> set (map name (registry s)) then
                   s\<lparr>model_calls := Suc (model_calls s),
                     history := append_turn (max_history cfg) (pending_turn req) (history s),
                     phase := ToolExecuting req\<rparr>
                 else
                   s\<lparr>model_calls := Suc (model_calls s),
                     rendered := rendered s @ [unknown_tool_error req],
                     phase := AwaitingUserInput\<rparr>)
      | ToolExecuting req \<Rightarrow>
          s\<lparr>tool_calls := tool_calls s @ [req],
            history := append_turn (max_history cfg) (tool_turn req (invoke env req)) (history s),
            rounds := Suc (rounds s),
            phase := ModelThinking\<rparr>
      | AnswerReady \<Rightarrow> s\<lparr>phase := AwaitingUserInput\<rparr>)"

text \<open>The loop is busy while the model is thinking or a tool is executing.\<close>

fun busy :: "phase \<Rightarrow> bool" where
  "busy ModelThinking = True"
| "busy (ToolExecuting req) = True"
| "busy AwaitingUserInput = False"
| "busy AnswerReady = False"

text \<open>What is left of a user turn: the rounds up to the cap, and within a round the model
  call comes before the tool call.\<close>

fun remaining :: "nat \<Rightarrow> session \<Rightarrow> nat" where
  "remaining cap s =
     (case phase s of
        ModelThinking \<Rightarrow> 3 * (cap - rounds s) + 1
      | ToolExecuting req \<Rightarrow> 3 * (cap - Suc (rounds s)) + 2
      | AwaitingUserInput \<Rightarrow> 0
      | AnswerReady \<Rightarrow> 0)"

text \<open>Modelled from the spec: the loop of one user turn, whose code is missing: transitions
  are taken until the answer is ready or the turn has ended in a displayed error.\<close>

function run :: "config \<Rightarrow> environment \<Rightarrow> session \<Rightarrow> session" where
  "run cfg env s = (if busy (phase s) then run cfg env (step cfg env s) else s)"
  by pat_completeness auto
termination
proof (relation "measure (\<lambda>(cfg, env, s). remaining (iteration_cap cfg) s)")
  show "wf (measure (\<lambda>(cfg, env, s). remaining (iteration_cap cfg) s))"
    by simp
next
  fix cfg :: config and env :: environment and s :: session
  assume "busy (phase s)"
  then have "remaining (iteration_cap cfg) (step cfg env s) < remaining (iteration_cap cfg) s"
    by (cases "phase s") (auto simp: step_def split: sum.splits ModelResponse.splits)
  then show "((cfg, env, step cfg env s), (cfg, env, s))
      \<in> measure (\<lambda>(cfg, env, s). remaining (iteration_cap cfg) s)"
    by simp
qed

declare run.simps [simp del]

text \<open>Modelled from the spec: a whole user turn, from the receipt of the user's text to the
  state in which the loop rests; the code is missing.\<close>

definition chat_turn :: "config \<Rightarrow> environment \<Rightarrow> string \<Rightarrow> session \<Rightarrow> session" where
  "chat_turn cfg env text s = run cfg env (user_input cfg text s)"

text \<open>The cap holds in a state: no more rounds are done than the cap allows, and a tool
  is executing only while a round is still allowed.\<close>

definition within_cap :: "config \<Rightarrow> session \<Rightarrow> bool" where
  "within_cap cfg s =
     (case phase s of
        ToolExecuting req \<Rightarrow> rounds s < iteration_cap cfg
      | _ \<Rightarrow> rounds s \<le> iteration_cap cfg)"

text \<open>The rounds begun in a state: those done, and the one whose tool is executing.\<close>

definition rounds_begun :: "session \<Rightarrow> nat" where
  "rounds_begun s = (case phase s of ToolExecuting req \<Rightarrow> Suc (rounds s) | _ \<Rightarrow> rounds s)"

text \<open>A scenario in the manner of the specification's: the user asks for pod logs, and the
  model keeps asking for the tool \<open>get_logs\<close>. \<open>eager_env\<close> does so whatever the history is;
  \<open>insistent_env\<close> looks at the history, and would answer at once were it empty.\<close>

definition logs_request :: ToolCallRequest where
  "logs_request = \<lparr>tool = ''get_logs'', arguments = [(''pod'', ''nginx'')], correlation_id = ''c''\<rparr>"

definition insistent_env :: environment where
  "insistent_env =
     \<lparr>send = (\<lambda>n h tools. if h = [] then Inr (FinalAnswer ''hello'')
                             else Inr (ToolInvocation logs_request)),
      invoke = (\<lambda>req. \<lparr>result_id = correlation_id req, success = True, payload = ''log''\<rparr>)\<rparr>"

definition eager_env :: environment where
  "eager_env =
     \<lparr>send = (\<lambda>n h tools. Inr (ToolInvocation logs_request)),
      invoke = (\<lambda>req. \<lparr>result_id = correlation_id req, success = True, payload = ''log''\<rparr>)\<rparr>"

definition fresh_session :: session where
  "fresh_session =
     \<lparr>history = [], phase = AwaitingUserInput, rounds = 0,
      registry = [\<lparr>name = ''get_logs'', description = ''pod logs'',
                   input_schema = [(''pod'', ''string'')], endpoint = ''/mcp/get_logs''\<rparr>],
      model_calls = 0, tool_calls = [], rendered = []\<rparr>"

section \<open>Properties of the entry point\<close>

lemma Execute_error:
  "rootCmd_Execute p = (p1, Some err) \<Longrightarrow>
     Execute rootCmd_Execute p = (Println err p1, Exited 1)"
  by (simp add: Execute_def)

lemma Execute_success:
  "rootCmd_Execute p = (p1, None) \<Longrightarrow> Execute rootCmd_Execute p = (p1, Returned)"
  by (simp add: Execute_def)

lemma Println_grows: "stdout (Println s p) \<noteq> stdout p"
  by (simp add: Println_def)

lemma Println_stderr: "stderr (Println s p) = stderr p"
  by (simp add: Println_def)

text \<open>
  Claim C9. Whenever the root command's execution returns an error (an unrecoverable
  startup failure such as a missing required credential), the process is terminated
  with an exit code different from zero.
\<close>

theorem Execute_failure_exits_nonzero:
  assumes "snd (rootCmd_Execute p) = Some err"
  shows "\<exists>code. snd (Execute rootCmd_Execute p) = Exited code \<and> code \<noteq> 0"
proof -
  obtain p1 where "rootCmd_Execute p = (p1, Some err)"
    using assms by (cases "rootCmd_Execute p") simp
  then have "snd (Execute rootCmd_Execute p) = Exited 1"
    by (simp add: Execute_error)
  then show ?thesis by simp
qed

theorem Execute_failure_exits_nonzero_witness:
  "snd ((\<lambda>p. (p, Some ''api key is required'')) \<lparr>stdout = [], stderr = []\<rparr>)
     = Some ''api key is required''
   \<and> (\<exists>code. snd (Execute (\<lambda>p. (p, Some ''api key is required''))
                    \<lparr>stdout = [], stderr = []\<rparr>) = Exited code \<and> code \<noteq> 0)"
  using Execute_failure_exits_nonzero
    [of "\<lambda>p. (p, Some ''api key is required'')" "\<lparr>stdout = [], stderr = []\<rparr>"
        "''api key is required''"]
  by simp

text \<open>
  Claim C10. Execute prints and terminates the process exactly when the root command's
  execution returns an error. In that case the error text and a line feed are appended to
  standard output, standard error is left as the root command left it, and the exit
  status is exactly 1. When the root command succeeds, Execute returns normally and
  leaves both streams as the root command left them.
\<close>

theorem Execute_prints_and_exits_iff_error:
  "(snd (Execute rootCmd_Execute p) \<noteq> Returned \<longleftrightarrow> snd (rootCmd_Execute p) \<noteq> None)
   \<and> (stdout (fst (Execute rootCmd_Execute p)) \<noteq> stdout (fst (rootCmd_Execute p))
        \<longleftrightarrow> snd (rootCmd_Execute p) \<noteq> None)
   \<and> stderr (fst (Execute rootCmd_Execute p)) = stderr (fst (rootCmd_Execute p))
   \<and> (\<forall>err. snd (rootCmd_Execute p) = Some err \<longrightarrow>
         Execute rootCmd_Execute p =
           ((fst (rootCmd_Execute p))
              \<lparr>stdout := stdout (fst (rootCmd_Execute p)) @ err @ [CHR 0x0A]\<rparr>,
            Exited 1))
   \<and> (snd (rootCmd_Execute p) = None \<longrightarrow>
         Execute rootCmd_Execute p = (fst (rootCmd_Execute p), Returned))"
proof (cases "rootCmd_Execute p")
  case (Pair p1 r)
  show ?thesis
  proof (cases r)
    case None
    with Pair show ?thesis
      by (simp add: Execute_success)
  next
    case (Some err)
    with Pair show ?thesis
      by (simp add: Execute_error Println_grows Println_stderr) (simp add: Println_def)
  qed
qed

theorem Execute_prints_and_exits_iff_error_witness:
  "Execute (\<lambda>p. (p\<lparr>stderr := stderr p @ ''Error: unknown command''\<rparr>, Some ''unknown command''))
       \<lparr>stdout = ''hi'', stderr = []\<rparr>
     = (\<lparr>stdout = ''hiunknown command'' @ [CHR 0x0A], stderr = ''Error: unknown command''\<rparr>,
        Exited 1)
   \<and> Execute (\<lambda>p. (p\<lparr>stdout := stdout p @ ''usage''\<rparr>, None)) \<lparr>stdout = ''hi'', stderr = []\<rparr>
     = (\<lparr>stdout = ''hiusage'', stderr = []\<rparr>, Returned)"
  using
    Execute_prints_and_exits_iff_error
      [of "\<lambda>p. (p\<lparr>stderr := stderr p @ ''Error: unknown command''\<rparr>, Some ''unknown command'')"
          "\<lparr>stdout = ''hi'', stderr = []\<rparr>"]
    Execute_prints_and_exits_iff_error
      [of "\<lambda>p. (p\<lparr>stdout := stdout p @ ''usage''\<rparr>, None)" "\<lparr>stdout = ''hi'', stderr = []\<rparr>"]
  by simp

section \<open>Properties of the bounded history\<close>

lemma trim_drop: "trim m h = drop (length h - m) h"
  by (induction h) (auto simp: Suc_diff_le)

lemma length_trim: "length (trim m h) \<le> m"
  by (simp add: trim_drop)

lemma length_append_turn: "length (append_turn m t h) \<le> m"
  by (simp add: append_turn_def length_trim)

lemma append_turn_drop: "append_turn m t h = drop (Suc (length h) - m) (h @ [t])"
  unfolding append_turn_def by (subst trim_drop) simp

lemma last_append_turn: "0 < m \<Longrightarrow> last (append_turn m t h) = t"
  unfolding append_turn_drop by (subst last_drop) simp_all

lemma user_input_bounded: "length (history (user_input cfg text s)) \<le> max_history cfg"
  by (simp add: user_input_def length_append_turn)

lemma step_bounded:
  "length (history s) \<le> max_history cfg \<Longrightarrow> length (history (step cfg env s)) \<le> max_history cfg"
  by (cases "phase s")
     (auto simp: step_def length_append_turn split: sum.splits ModelResponse.splits)

lemma run_busy: "busy (phase s) \<Longrightarrow> run cfg env s = run cfg env (step cfg env s)"
  by (subst run.simps) simp

lemma run_idle: "\<not> busy (phase s) \<Longrightarrow> run cfg env s = s"
  by (subst run.simps) simp

lemma run_bounded:
  "length (history s) \<le> max_history cfg \<Longrightarrow> length (history (run cfg env s)) \<le> max_history cfg"
proof (induction cfg env s rule: run.induct)
  case (1 cfg env s)
  then show ?case
    by (cases "busy (phase s)") (simp_all add: run_busy run_idle step_bounded)
qed

lemma append_turn_example: "append_turn 3 (5::nat) [1, 2, 3, 4] = [3, 4, 5]"
  by (simp add: append_turn_def)

text \<open>
  Claim C1. Appending a turn leaves a history no longer than the configured maximum, and
  what is left is the history with the new turn at its end, less its oldest turns: exactly
  as many of them as the length exceeds the maximum by, and no other turn. Every append of
  the chat loop goes through this operation, so after a whole user turn the history of
  any session is within the maximum.
\<close>

theorem history_bounded_fifo:
  "length (append_turn m t h) \<le> m
   \<and> append_turn m t h = drop (Suc (length h) - m) (h @ [t])
   \<and> length (history (chat_turn cfg env text s)) \<le> max_history cfg"
proof (intro conjI)
  show "length (append_turn m t h) \<le> m" by (rule length_append_turn)
  show "append_turn m t h = drop (Suc (length h) - m) (h @ [t])" by (rule append_turn_drop)
  show "length (history (chat_turn cfg env text s)) \<le> max_history cfg"
    unfolding chat_turn_def by (rule run_bounded) (rule user_input_bounded)
qed

section \<open>Properties of the chat loop\<close>

lemma run_rests: "\<not> busy (phase (run cfg env s))"
proof (induction cfg env s rule: run.induct)
  case (1 cfg env s)
  then show ?case
    by (cases "busy (phase s)") (simp_all add: run_busy run_idle)
qed

lemma step_tool_calls:
  "length (tool_calls (step cfg env s)) + rounds s = length (tool_calls s) + rounds (step cfg env s)"
  by (cases "phase s") (auto simp: step_def split: sum.splits ModelResponse.splits)

lemma run_tool_calls:
  "length (tool_calls (run cfg env s)) + rounds s = length (tool_calls s) + rounds (run cfg env s)"
proof (induction cfg env s rule: run.induct)
  case (1 cfg env s)
  show ?case
  proof (cases "busy (phase s)")
    case True
    with 1 have "length (tool_calls (run cfg env s)) + rounds (step cfg env s)
      = length (tool_calls (step cfg env s)) + rounds (run cfg env s)"
      by (simp add: run_busy)
    with step_tool_calls [of cfg env s] show ?thesis by linarith
  next
    case False
    then show ?thesis by (simp add: run_idle)
  qed
qed

lemma step_within_cap: "within_cap cfg s \<Longrightarrow> within_cap cfg (step cfg env s)"
  by (cases "phase s")
     (auto simp: within_cap_def step_def split: sum.splits ModelResponse.splits)

lemma run_within_cap: "within_cap cfg s \<Longrightarrow> within_cap cfg (run cfg env s)"
proof (induction cfg env s rule: run.induct)
  case (1 cfg env s)
  then show ?case
    by (cases "busy (phase s)") (simp_all add: run_busy run_idle step_within_cap)
qed

lemma within_cap_rounds: "within_cap cfg s \<Longrightarrow> rounds s \<le> iteration_cap cfg"
  by (cases "phase s") (auto simp: within_cap_def)

lemma user_input_within_cap: "within_cap cfg (user_input cfg text s)"
  by (simp add: within_cap_def user_input_def)

lemma chat_turn_tool_calls_le:
  "length (tool_calls (chat_turn cfg env text s)) \<le> length (tool_calls s) + iteration_cap cfg"
proof -
  let ?s0 = "user_input cfg text s"
  have "rounds (run cfg env ?s0) \<le> iteration_cap cfg"
    by (intro within_cap_rounds run_within_cap user_input_within_cap)
  moreover have "length (tool_calls (run cfg env ?s0)) + rounds ?s0
      = length (tool_calls ?s0) + rounds (run cfg env ?s0)"
    by (rule run_tool_calls)
  moreover have "rounds ?s0 = 0" "tool_calls ?s0 = tool_calls s"
    by (simp_all add: user_input_def)
  ultimately show ?thesis by (simp add: chat_turn_def)
qed


lemma step_truncates:
  assumes "phase s = ModelThinking" "iteration_cap cfg \<le> rounds s"
  shows "step cfg env s =
    s\<lparr>history := append_turn (max_history cfg) (assistant_turn truncation_notice) (history s),
      rendered := rendered s @ [truncation_notice],
      phase := AnswerReady\<rparr>"
  using assms by (simp add: step_def)

lemma step_round:
  assumes "phase s = ModelThinking" "rounds s < iteration_cap cfg"
    and "send env (model_calls s) (history s) (registry s) = Inr (ToolInvocation req)"
    and "tool req \<in> set (map name (registry s))"
  shows "step cfg env (step cfg env s) =
    s\<lparr>model_calls := Suc (model_calls s),
      tool_calls := tool_calls s @ [req],
      history := append_turn (max_history cfg) (tool_turn req (invoke env req))
                   (append_turn (max_history cfg) (pending_turn req) (history s)),
      rounds := Suc (rounds s)\<rparr>"
    and "busy (phase (step cfg env s))"
  using assms by (simp_all add: step_def)

lemma run_forced:
  assumes "phase s = ModelThinking"
    and "rounds s + d = iteration_cap cfg"
    and "\<forall>k. model_calls s \<le> k \<and> k < model_calls s + d \<longrightarrow>
        (\<forall>h. \<exists>req. send env k h (registry s) = Inr (ToolInvocation req)
           \<and> tool req \<in> set (map name (registry s)))"
  shows "phase (run cfg env s) = AnswerReady
    \<and> length (tool_calls (run cfg env s)) = length (tool_calls s) + d
    \<and> model_calls (run cfg env s) = model_calls s + d
    \<and> rendered (run cfg env s) = rendered s @ [truncation_notice]
    \<and> (\<exists>h. history (run cfg env s)
          = append_turn (max_history cfg) (assistant_turn truncation_notice) h)"
  using assms
proof (induction d arbitrary: s)
  case 0
  let ?t = "step cfg env s"
  have t: "?t = s\<lparr>history := append_turn (max_history cfg) (assistant_turn truncation_notice) (history s),
      rendered := rendered s @ [truncation_notice], phase := AnswerReady\<rparr>"
    using 0 by (intro step_truncates) simp_all
  have "run cfg env s = run cfg env ?t"
    using 0 by (simp add: run_busy)
  also have "\<dots> = ?t"
    by (rule run_idle) (simp add: t)
  finally show ?case
    by (auto simp: t)
next
  case (Suc d)
  from Suc.prems obtain req where
    req: "send env (model_calls s) (history s) (registry s) = Inr (ToolInvocation req)"
      "tool req \<in> set (map name (registry s))"
  proof -
    have "model_calls s \<le> model_calls s \<and> model_calls s < model_calls s + Suc d" by simp
    with Suc.prems(3) have "\<forall>h. \<exists>req. send env (model_calls s) h (registry s) = Inr (ToolInvocation req)
           \<and> tool req \<in> set (map name (registry s))" by blast
    then show ?thesis using that by blast
  qed
  let ?u = "step cfg env (step cfg env s)"
  have lt: "rounds s < iteration_cap cfg" using Suc.prems by simp
  note u = step_round [OF Suc.prems(1) lt req]
  have run: "run cfg env s = run cfg env ?u"
    using Suc.prems(1) u(2) by (simp add: run_busy)
  have "phase (run cfg env ?u) = AnswerReady
    \<and> length (tool_calls (run cfg env ?u)) = length (tool_calls ?u) + d
    \<and> model_calls (run cfg env ?u) = model_calls ?u + d
    \<and> rendered (run cfg env ?u) = rendered ?u @ [truncation_notice]
    \<and> (\<exists>h. history (run cfg env ?u)
          = append_turn (max_history cfg) (assistant_turn truncation_notice) h)"
  proof (rule Suc.IH)
    show "phase ?u = ModelThinking" using Suc.prems(1) by (simp add: u(1))
    show "rounds ?u + d = iteration_cap cfg" using Suc.prems(2) by (simp add: u(1))
    show "\<forall>k. model_calls ?u \<le> k \<and> k < model_calls ?u + d \<longrightarrow>
        (\<forall>h. \<exists>req. send env k h (registry ?u) = Inr (ToolInvocation req)
           \<and> tool req \<in> set (map name (registry ?u)))"
      using Suc.prems(3) by (simp add: u(1))
  qed
  then show ?case
    by (simp add: run u(1))
qed


lemma run_reaches_cap:
  assumes "busy (phase s)" "within_cap cfg s" "rounds (run cfg env s) = iteration_cap cfg"
  shows "phase (run cfg env s) = AnswerReady
    \<and> model_calls (run cfg env s) + rounds_begun s = model_calls s + iteration_cap cfg
    \<and> rendered (run cfg env s) = rendered s @ [truncation_notice]
    \<and> (\<exists>h. history (run cfg env s)
          = append_turn (max_history cfg) (assistant_turn truncation_notice) h)"
  using assms
proof (induction cfg env s rule: run.induct)
  case (1 cfg env s)
  let ?t = "step cfg env s"
  have run: "run cfg env s = run cfg env ?t"
    using "1.prems"(1) by (rule run_busy)
  have wt: "within_cap cfg ?t"
    using "1.prems"(2) by (rule step_within_cap)
  have rt: "rounds (run cfg env ?t) = iteration_cap cfg"
    using "1.prems"(3) run by simp
  show ?case
  proof (cases "busy (phase ?t)")
    case True
    have ih: "phase (run cfg env ?t) = AnswerReady
      \<and> model_calls (run cfg env ?t) + rounds_begun ?t = model_calls ?t + iteration_cap cfg
      \<and> rendered (run cfg env ?t) = rendered ?t @ [truncation_notice]
      \<and> (\<exists>h. history (run cfg env ?t)
            = append_turn (max_history cfg) (assistant_turn truncation_notice) h)"
      using "1.IH" [OF "1.prems"(1) True wt rt] .
    have link: "model_calls ?t + rounds_begun s = model_calls s + rounds_begun ?t"
      "rendered ?t = rendered s"
      using "1.prems"(1) True
      by (cases "phase s"; auto simp: step_def rounds_begun_def split: sum.splits ModelResponse.splits if_splits)+
    from ih link show ?thesis
      unfolding run by (simp; linarith)
  next
    case False
    then have idle: "run cfg env ?t = ?t" by (rule run_idle)
    have rounds_t: "rounds ?t = iteration_cap cfg" using rt idle by simp
    have "phase s = ModelThinking \<and> iteration_cap cfg \<le> rounds s"
      using "1.prems"(1,2) False rounds_t
      by (cases "phase s"; auto simp: step_def within_cap_def split: sum.splits ModelResponse.splits if_splits)
    then have "?t = s\<lparr>history := append_turn (max_history cfg) (assistant_turn truncation_notice) (history s),
        rendered := rendered s @ [truncation_notice], phase := AnswerReady\<rparr>"
      and "rounds_begun s = rounds s" and "rounds s = iteration_cap cfg"
      using rounds_t by (simp_all add: step_truncates rounds_begun_def)
    then show ?thesis
      unfolding run idle by auto
  qed
qed


text \<open>
  Claim C2. In one user turn the Tool Invoker is called at most as many times as the
  iteration cap says, and the loop comes to rest, whatever the model and the tools do.
  Whenever as many tool-call rounds as the cap have occurred in the turn (ten for a cap
  of ten), the loop is in AnswerReady and has shown the truncation notice, which is the
  last turn of a history that may hold a turn; the model was called once per round and
  not again, and by the bound no further tool call was made. A model that asks for a
  tool of the registry at each of its first cap calls brings that many rounds about.
\<close>

theorem chat_turn_iteration_cap:
  "length (tool_calls (chat_turn cfg env text s)) \<le> length (tool_calls s) + iteration_cap cfg
   \<and> \<not> busy (phase (chat_turn cfg env text s))
   \<and> (length (tool_calls (chat_turn cfg env text s)) = length (tool_calls s) + iteration_cap cfg \<longrightarrow>
        phase (chat_turn cfg env text s) = AnswerReady
        \<and> model_calls (chat_turn cfg env text s) = model_calls s + iteration_cap cfg
        \<and> rendered (chat_turn cfg env text s) = rendered s @ [truncation_notice]
        \<and> (0 < max_history cfg \<longrightarrow>
             last (history (chat_turn cfg env text s)) = assistant_turn truncation_notice))
   \<and> ((\<forall>k h. k < iteration_cap cfg \<longrightarrow>
          (\<exists>req. send env (model_calls s + k) h (registry s) = Inr (ToolInvocation req)
             \<and> tool req \<in> set (map name (registry s)))) \<longrightarrow>
        length (tool_calls (chat_turn cfg env text s)) = length (tool_calls s) + iteration_cap cfg)"
proof (intro conjI impI)
  show "length (tool_calls (chat_turn cfg env text s)) \<le> length (tool_calls s) + iteration_cap cfg"
    by (rule chat_turn_tool_calls_le)
  show "\<not> busy (phase (chat_turn cfg env text s))"
    unfolding chat_turn_def by (rule run_rests)
next
  assume grew: "length (tool_calls (chat_turn cfg env text s)) = length (tool_calls s) + iteration_cap cfg"
  let ?s0 = "user_input cfg text s"
  have s0: "phase ?s0 = ModelThinking" "rounds ?s0 = 0" "model_calls ?s0 = model_calls s"
    "tool_calls ?s0 = tool_calls s" "rendered ?s0 = rendered s"
    by (simp_all add: user_input_def)
  have "length (tool_calls (run cfg env ?s0)) + rounds ?s0
      = length (tool_calls ?s0) + rounds (run cfg env ?s0)"
    by (rule run_tool_calls)
  with grew have "rounds (run cfg env ?s0) = iteration_cap cfg"
    by (simp add: chat_turn_def s0)
  with run_reaches_cap [of ?s0 cfg env]
  have forced: "phase (run cfg env ?s0) = AnswerReady
    \<and> model_calls (run cfg env ?s0) + rounds_begun ?s0 = model_calls ?s0 + iteration_cap cfg
    \<and> rendered (run cfg env ?s0) = rendered ?s0 @ [truncation_notice]
    \<and> (\<exists>h. history (run cfg env ?s0)
          = append_turn (max_history cfg) (assistant_turn truncation_notice) h)"
    by (simp add: s0 user_input_within_cap)
  have begun: "rounds_begun ?s0 = 0"
    by (simp add: rounds_begun_def s0)
  show "phase (chat_turn cfg env text s) = AnswerReady"
    using forced by (simp add: chat_turn_def)
  show "model_calls (chat_turn cfg env text s) = model_calls s + iteration_cap cfg"
    using forced by (simp add: chat_turn_def s0 begun)
  show "rendered (chat_turn cfg env text s) = rendered s @ [truncation_notice]"
    using forced by (simp add: chat_turn_def s0)
  show "last (history (chat_turn cfg env text s)) = assistant_turn truncation_notice"
    if "0 < max_history cfg"
    using forced that by (auto simp: chat_turn_def last_append_turn)
next
  assume tools: "\<forall>k h. k < iteration_cap cfg \<longrightarrow>
          (\<exists>req. send env (model_calls s + k) h (registry s) = Inr (ToolInvocation req)
             \<and> tool req \<in> set (map name (registry s)))"
  let ?s0 = "user_input cfg text s"
  have s0: "phase ?s0 = ModelThinking" "rounds ?s0 = 0" "model_calls ?s0 = model_calls s"
    "registry ?s0 = registry s" "tool_calls ?s0 = tool_calls s"
    by (simp_all add: user_input_def)
  have "\<forall>k. model_calls ?s0 \<le> k \<and> k < model_calls ?s0 + iteration_cap cfg \<longrightarrow>
        (\<forall>h. \<exists>req. send env k h (registry ?s0) = Inr (ToolInvocation req)
           \<and> tool req \<in> set (map name (registry ?s0)))"
  proof (intro allI impI)
    fix k h
    assume k: "model_calls ?s0 \<le> k \<and> k < model_calls ?s0 + iteration_cap cfg"
    then have "k - model_calls s < iteration_cap cfg" "model_calls s + (k - model_calls s) = k"
      unfolding s0 by arith+
    with tools show "\<exists>req. send env k h (registry ?s0) = Inr (ToolInvocation req)
           \<and> tool req \<in> set (map name (registry ?s0))"
      unfolding s0 by metis
  qed
  with run_forced [of ?s0 "iteration_cap cfg" cfg env]
  have "length (tool_calls (run cfg env ?s0)) = length (tool_calls ?s0) + iteration_cap cfg"
    using s0(1,2) by simp
  then show "length (tool_calls (chat_turn cfg env text s)) = length (tool_calls s) + iteration_cap cfg"
    by (simp add: chat_turn_def s0)
qed

theorem chat_turn_iteration_cap_witness:
  "phase (chat_turn \<lparr>max_history = 8, iteration_cap = 10\<rparr> insistent_env
       ''show pod logs for nginx'' fresh_session) = AnswerReady
   \<and> length (tool_calls (chat_turn \<lparr>max_history = 8, iteration_cap = 10\<rparr> insistent_env
       ''show pod logs for nginx'' fresh_session)) = 10
   \<and> model_calls (chat_turn \<lparr>max_history = 8, iteration_cap = 10\<rparr> insistent_env
       ''show pod logs for nginx'' fresh_session) = 10
   \<and> rendered (chat_turn \<lparr>max_history = 8, iteration_cap = 10\<rparr> insistent_env
       ''show pod logs for nginx'' fresh_session) = [truncation_notice]
   \<and> last (history (chat_turn \<lparr>max_history = 8, iteration_cap = 10\<rparr> insistent_env
       ''show pod logs for nginx'' fresh_session)) = assistant_turn truncation_notice
   \<and> length (tool_calls (chat_turn \<lparr>max_history = 8, iteration_cap = 10\<rparr> eager_env
       ''show pod logs for nginx'' fresh_session)) = 10"
proof -
  have grew: "length (tool_calls (chat_turn \<lparr>max_history = 8, iteration_cap = 10\<rparr> insistent_env
       ''show pod logs for nginx'' fresh_session)) = 10"
    by code_simp
  have start: "tool_calls fresh_session = []" "model_calls fresh_session = 0"
    "rendered fresh_session = []"
    by (simp_all add: fresh_session_def)
  have known: "registry fresh_session =
      [\<lparr>name = ''get_logs'', description = ''pod logs'',
        input_schema = [(''pod'', ''string'')], endpoint = ''/mcp/get_logs''\<rparr>]"
    by (simp add: fresh_session_def)
  show ?thesis
    using grew
      chat_turn_iteration_cap
        [of "\<lparr>max_history = 8, iteration_cap = 10\<rparr>" insistent_env
            "''show pod logs for nginx''" fresh_session]
      chat_turn_iteration_cap
        [of "\<lparr>max_history = 8, iteration_cap = 10\<rparr>" eager_env
            "''show pod logs for nginx''" fresh_session]
    by (simp add: start known eager_env_def logs_request_def)
qed

end
